theory Spec2Isabelle
  imports Main "HOL-Library.Word"
begin

unbundle bit_operations_syntax

text \<open>
  A shallow embedding of the migrator of \<open>main.go\<close>: the reader of the directory
  \<open>./migrations\<close> (\<open>readFile\<close>, \<open>parseMigrationFile\<close>, \<open>parseInt64\<close>, \<open>loadMigrations\<close>),
  the history table (\<open>appliedMigrations\<close>) and the four commands that use the database
  (\<open>applyMigrations\<close> for \<open>up\<close> and \<open>up-to\<close>, \<open>rollbackLastMigration\<close> for \<open>down\<close>,
  \<open>showMigrationInfo\<close> for \<open>info\<close>). A call of \<open>log.Fatal\<close> ends the process: a command
  returns its outcome together with the database as it is at that moment. The parsing of
  the command line in \<open>main\<close>, \<open>ensureMigrationTable\<close> (which changes nothing once the
  table exists) and \<open>createMigrationFile\<close> are not part of the model.
\<close>

section \<open>Strings: the library functions that main.go calls\<close>

text \<open>
  A Go string is a sequence of bytes; it is modelled as \<open>string\<close> (a list of 8-bit
  characters). The functions below follow the Go standard library at the byte level, for
  the arguments main.go passes to them.
\<close>

definition byte_of :: "char \<Rightarrow> nat" where
  "byte_of c = of_char c"

definition HasPrefix :: "string \<Rightarrow> string \<Rightarrow> bool" where
  "HasPrefix s p = (take (length p) s = p)"

definition HasSuffix :: "string \<Rightarrow> string \<Rightarrow> bool" where
  "HasSuffix s x = (length x \<le> length s \<and> drop (length s - length x) s = x)"

text \<open>\<open>strings.Cut\<close>: the text before and after the first occurrence of \<open>sep\<close>.\<close>

fun Cut :: "string \<Rightarrow> string \<Rightarrow> (string \<times> string) option" where
  "Cut [] sep = (if sep = [] then Some ([], []) else None)"
| "Cut (c # cs) sep =
     (if HasPrefix (c # cs) sep then Some ([], drop (length sep) (c # cs))
      else (case Cut cs sep of None \<Rightarrow> None | Some (a, b) \<Rightarrow> Some (c # a, b)))"

text \<open>\<open>strings.SplitN(s, sep, 2)\<close> for a non-empty separator: one piece when \<open>sep\<close>
  does not occur, otherwise the two pieces around its first occurrence.\<close>

definition SplitN2 :: "string \<Rightarrow> string \<Rightarrow> string list" where
  "SplitN2 s sep = (case Cut s sep of None \<Rightarrow> [s] | Some (a, b) \<Rightarrow> [a, b])"

text \<open>\<open>strings.ReplaceAll(s, old, new)\<close> for a non-empty \<open>old\<close> (its only call passes
  the literal marker): the occurrences are replaced from left to right, without overlap.\<close>

function ReplaceAll :: "string \<Rightarrow> string \<Rightarrow> string \<Rightarrow> string" where
  "ReplaceAll [] old new = []"
| "ReplaceAll (c # cs) old new =
     (if old \<noteq> [] \<and> HasPrefix (c # cs) old
      then new @ ReplaceAll (drop (length old) (c # cs)) old new
      else c # ReplaceAll cs old new)"
  by pat_completeness auto
termination
  by (relation "measure (\<lambda>(s, old, new). length s)") (auto simp: neq_Nil_conv)

text \<open>
  \<open>strings.TrimSpace\<close> removes the leading and then the trailing white space, as
  \<open>unicode.IsSpace\<close> defines it. At the byte level a white-space rune is one of the six
  ASCII bytes, or the UTF-8 encoding of U+0085, U+00A0, U+1680, U+2000..U+200A, U+2028,
  U+2029, U+202F, U+205F or U+3000; a byte sequence that is not valid UTF-8 decodes to
  the replacement rune, which is not white space.
\<close>

definition asciiSpace :: "nat \<Rightarrow> bool" where
  "asciiSpace b = (b = 9 \<or> b = 10 \<or> b = 11 \<or> b = 12 \<or> b = 13 \<or> b = 32)"

definition spaceRunes :: "nat list list" where
  "spaceRunes =
     [[0xC2, 0x85], [0xC2, 0xA0], [0xE1, 0x9A, 0x80],
      [0xE2, 0x80, 0x80], [0xE2, 0x80, 0x81], [0xE2, 0x80, 0x82], [0xE2, 0x80, 0x83],
      [0xE2, 0x80, 0x84], [0xE2, 0x80, 0x85], [0xE2, 0x80, 0x86], [0xE2, 0x80, 0x87],
      [0xE2, 0x80, 0x88], [0xE2, 0x80, 0x89], [0xE2, 0x80, 0x8A],
      [0xE2, 0x80, 0xA8], [0xE2, 0x80, 0xA9], [0xE2, 0x80, 0xAF],
      [0xE2, 0x81, 0x9F], [0xE3, 0x80, 0x80]]"

text \<open>The width in bytes of the white-space rune that \<open>bs\<close> starts with (0 if none),
  and of the one it ends with.\<close>

definition leadingSpace :: "nat list \<Rightarrow> nat" where
  "leadingSpace bs =
     (case bs of [] \<Rightarrow> 0
      | b # _ \<Rightarrow> if asciiSpace b then 1
                 else (case filter (\<lambda>r. take (length r) bs = r) spaceRunes of
                         [] \<Rightarrow> 0 | r # _ \<Rightarrow> length r))"

definition trailingSpace :: "nat list \<Rightarrow> nat" where
  "trailingSpace bs =
     (if bs = [] then 0
      else if asciiSpace (last bs) then 1
      else (case filter (\<lambda>r. length r \<le> length bs \<and> drop (length bs - length r) bs = r)
                  spaceRunes of
              [] \<Rightarrow> 0 | r # _ \<Rightarrow> length r))"

function TrimLeft :: "string \<Rightarrow> string" where
  "TrimLeft s =
     (let n = leadingSpace (map byte_of s) in if n = 0 then s else TrimLeft (drop n s))"
  by pat_completeness auto
termination
proof (relation "measure length")
  show "wf (measure length)" by simp
next
  fix s :: string and n
  assume n: "n = leadingSpace (map byte_of s)" and nz: "n \<noteq> 0"
  from n nz have "s \<noteq> []" by (auto simp: leadingSpace_def)
  with nz show "(drop n s, s) \<in> measure length" by simp
qed

declare TrimLeft.simps [simp del]

function TrimRight :: "string \<Rightarrow> string" where
  "TrimRight s =
     (let n = trailingSpace (map byte_of s) in
      if n = 0 then s else TrimRight (take (length s - n) s))"
  by pat_completeness auto
termination
proof (relation "measure length")
  show "wf (measure length)" by simp
next
  fix s :: string and n
  assume n: "n = trailingSpace (map byte_of s)" and nz: "n \<noteq> 0"
  from n nz have "s \<noteq> []" by (auto simp: trailingSpace_def)
  with nz show "(take (length s - n) s, s) \<in> measure length" by simp
qed

declare TrimRight.simps [simp del]

definition TrimSpace :: "string \<Rightarrow> string" where
  "TrimSpace s = TrimRight (TrimLeft s)"

text \<open>Decimal digits: \<open>\d\<close> of the regular expression, \<open>%d\<close> of Sscanf and Sprintf.\<close>

definition isDigit :: "char \<Rightarrow> bool" where
  "isDigit c = (48 \<le> byte_of c \<and> byte_of c \<le> 57)"

definition digitVal :: "char \<Rightarrow> int" where
  "digitVal c = int (byte_of c) - 48"

definition decimalValue :: "string \<Rightarrow> int" where
  "decimalValue s = foldl (\<lambda>acc c. acc * 10 + digitVal c) 0 s"

definition maxInt64 :: int where
  "maxInt64 = 2 ^ 63 - 1"

text \<open>
  \<open>parseInt64\<close> of the source, on the token the regular expression captured (one or
  more decimal digits): Sscanf stores the value when it fits into an int64; otherwise it
  reports a range error, which the source drops, and \<open>v\<close> keeps its zero value.
\<close>

definition parseInt64 :: "string \<Rightarrow> int" where
  "parseInt64 s = (let v = decimalValue s in if v \<le> maxInt64 then v else 0)"

fun digitsOf :: "nat \<Rightarrow> string" where
  "digitsOf n =
     (if n < 10 then [char_of (48 + n)] else digitsOf (n div 10) @ [char_of (48 + n mod 10)])"

declare digitsOf.simps [simp del]

text \<open>\<open>fmt.Sprintf("%d", v)\<close>: the decimal rendering, with no leading zeros.\<close>

definition itoa :: "int \<Rightarrow> string" where
  "itoa v = (if v < 0 then CHR ''-'' # digitsOf (nat (- v)) else digitsOf (nat v))"

section \<open>SHA-256 and hexadecimal encoding\<close>

text \<open>
  \<open>sha256.Sum256\<close> of the standard library, after FIPS 180-4, on 32-bit words, and
  \<open>hex.EncodeToString\<close>.
\<close>

type_synonym w32 = "32 word"
type_synonym byte = "8 word"

definition rotr :: "nat \<Rightarrow> w32 \<Rightarrow> w32" where
  "rotr n x = (drop_bit n x) OR (push_bit (32 - n) x)"

definition Ch :: "w32 \<Rightarrow> w32 \<Rightarrow> w32 \<Rightarrow> w32" where
  "Ch x y z = (x AND y) XOR (NOT x AND z)"

definition Maj :: "w32 \<Rightarrow> w32 \<Rightarrow> w32 \<Rightarrow> w32" where
  "Maj x y z = (x AND y) XOR (x AND z) XOR (y AND z)"

definition bigSigma0 :: "w32 \<Rightarrow> w32" where
  "bigSigma0 x = rotr 2 x XOR rotr 13 x XOR rotr 22 x"

definition bigSigma1 :: "w32 \<Rightarrow> w32" where
  "bigSigma1 x = rotr 6 x XOR rotr 11 x XOR rotr 25 x"

definition smallSigma0 :: "w32 \<Rightarrow> w32" where
  "smallSigma0 x = rotr 7 x XOR rotr 18 x XOR drop_bit 3 x"

definition smallSigma1 :: "w32 \<Rightarrow> w32" where
  "smallSigma1 x = rotr 17 x XOR rotr 19 x XOR drop_bit 10 x"

text \<open>
  The constants of the standard: the first 32 bits of the fractional parts of the cube
  roots of the first 64 primes (the round constants) and of the square roots of the first
  8 primes (the initial hash value). \<open>iroot k n\<close> is the integer part of the \<open>k\<close>-th
  root of \<open>n\<close>, found bit by bit, for roots below \<open>2 ^ 40\<close>.
\<close>

definition iroot :: "nat \<Rightarrow> nat \<Rightarrow> nat" where
  "iroot k n = foldl (\<lambda>r i. if (r + 2 ^ i) ^ k \<le> n then r + 2 ^ i else r) 0 (rev [0..<40])"

definition isPrime :: "nat \<Rightarrow> bool" where
  "isPrime n = (2 \<le> n \<and> list_all (\<lambda>d. n mod d \<noteq> 0) [2..<n])"

definition firstPrimes :: "nat \<Rightarrow> nat list" where
  "firstPrimes k = take k (filter isPrime [2..<312])"

definition sha256_K :: "w32 list" where
  "sha256_K = map (\<lambda>p. of_nat (iroot 3 (p * 2 ^ 96))) (firstPrimes 64)"

definition sha256_init :: "w32 list" where
  "sha256_init = map (\<lambda>p. of_nat (iroot 2 (p * 2 ^ 64))) (firstPrimes 8)"

text \<open>Padding: the byte 0x80, zeros up to 56 modulo 64, the bit length on 8 bytes.\<close>

definition be_bytes :: "nat \<Rightarrow> nat \<Rightarrow> byte list" where
  "be_bytes k v = map (\<lambda>i. of_nat (v div 2 ^ (8 * (k - 1 - i)))) [0..<k]"

definition sha256_pad :: "byte list \<Rightarrow> byte list" where
  "sha256_pad msg =
     (let l = length msg in
      msg @ [0x80] @ replicate ((119 - l mod 64) mod 64) 0 @ be_bytes 8 ((8 * l) mod 2 ^ 64))"

definition be_word :: "byte list \<Rightarrow> w32" where
  "be_word bs = foldl (\<lambda>acc b. push_bit 8 acc OR ucast b) 0 bs"

function chunks :: "nat \<Rightarrow> 'a list \<Rightarrow> 'a list list" where
  "chunks n xs = (if n = 0 \<or> xs = [] then [] else take n xs # chunks n (drop n xs))"
  by pat_completeness auto
termination
  by (relation "measure (\<lambda>(n, xs). length xs)") auto

declare chunks.simps [simp del]

primrec schedule :: "nat \<Rightarrow> w32 list \<Rightarrow> w32 list" where
  "schedule 0 ws = ws"
| "schedule (Suc k) ws =
     (let n = length ws in
      schedule k (ws @ [smallSigma1 (ws ! (n - 2)) + ws ! (n - 7)
                        + smallSigma0 (ws ! (n - 15)) + ws ! (n - 16)]))"

definition sha256_round :: "w32 list \<Rightarrow> w32 \<times> w32 \<Rightarrow> w32 list" where
  "sha256_round st kw =
     (case st of [a, b, c, d, e, f, g, h] \<Rightarrow>
        (let t1 = h + bigSigma1 e + Ch e f g + fst kw + snd kw;
             t2 = bigSigma0 a + Maj a b c
         in [t1 + t2, a, b, c, d + t1, e, f, g])
      | _ \<Rightarrow> st)"

definition sha256_block :: "w32 list \<Rightarrow> byte list \<Rightarrow> w32 list" where
  "sha256_block hs blk =
     (let ws = schedule 48 (map be_word (chunks 4 blk))
      in map2 (+) hs (foldl sha256_round hs (zip sha256_K ws)))"

definition word_bytes :: "w32 \<Rightarrow> byte list" where
  "word_bytes w = [ucast (drop_bit 24 w), ucast (drop_bit 16 w), ucast (drop_bit 8 w), ucast w]"

definition Sum256 :: "string \<Rightarrow> byte list" where
  "Sum256 content =
     concat (map word_bytes
       (foldl sha256_block sha256_init
          (chunks 64 (sha256_pad (map (\<lambda>c. of_nat (byte_of c)) content)))))"

definition hextable :: string where
  "hextable = ''0123456789abcdef''"

definition EncodeToString :: "byte list \<Rightarrow> string" where
  "EncodeToString bs =
     concat (map (\<lambda>b. [hextable ! (unat b div 16), hextable ! (unat b mod 16)]) bs)"

section \<open>The migration source reader\<close>

record Migration =
  Version :: int
  Name :: string
  UpSQL :: string
  DownSQL :: string
  Checksum :: string

text \<open>
  The directory \<open>./migrations\<close> is the list of its entries, in the order \<open>os.ReadDir\<close>
  returns them; \<open>None\<close> is a directory that cannot be read. An entry has the content
  \<open>None\<close> when opening or reading it fails. A file is addressed by its name inside the
  directory: the source joins \<open>migrationDir\<close> with that name and takes the base name
  back, so names that hold a path separator are outside the model.
\<close>

record DirEntry =
  FileName :: string
  IsDir :: bool
  Content :: "string option"

type_synonym filesystem = "DirEntry list option"

datatype error =
    ReadDirError
  | ReadFileError string
  | InvalidFilename string
  | MissingDownSection string
  | ChecksumMismatch int string
  | ApplyFailed int
  | RecordFailed int
  | RollbackFailed int
  | DeleteFailed int

definition readFile :: "filesystem \<Rightarrow> string \<Rightarrow> error + string" where
  "readFile fs path =
     (case fs of None \<Rightarrow> Inl (ReadFileError path)
      | Some entries \<Rightarrow>
          (case find (\<lambda>e. FileName e = path) entries of
             None \<Rightarrow> Inl (ReadFileError path)
           | Some e \<Rightarrow>
               if IsDir e then Inl (ReadFileError path)
               else (case Content e of None \<Rightarrow> Inl (ReadFileError path)
                     | Some data \<Rightarrow> Inr data)))"

text \<open>
  \<open>FindStringSubmatch\<close> for \<^verbatim>\<open>^(\d+)_([^.]+)\.sql$\<close>: the digits before the underscore
  are the longest digit prefix (the next byte is the underscore), and the name is what
  lies between that underscore and the final \<open>.sql\<close>, non-empty and without a dot.
\<close>

definition matchFilename :: "string \<Rightarrow> (string \<times> string) option" where
  "matchFilename filename =
     (let tok = takeWhile isDigit filename; rest = dropWhile isDigit filename in
      if tok = [] then None
      else (case rest of
              [] \<Rightarrow> None
            | c # r \<Rightarrow>
                if c = CHR ''_'' \<and> HasSuffix r ''.sql''
                then (let nm = take (length r - 4) r in
                      if nm \<noteq> [] \<and> CHR ''.'' \<notin> set nm then Some (tok, nm) else None)
                else None))"

definition parseMigrationFile :: "filesystem \<Rightarrow> string \<Rightarrow> error + Migration" where
  "parseMigrationFile fs path =
     (case readFile fs path of
        Inl e \<Rightarrow> Inl e
      | Inr content \<Rightarrow>
          (case matchFilename path of
             None \<Rightarrow> Inl (InvalidFilename path)
           | Some (tok, nm) \<Rightarrow>
               (let split = SplitN2 content ''-- +down'' in
                if length split \<noteq> 2 then Inl (MissingDownSection path)
                else Inr \<lparr> Version = parseInt64 tok,
                           Name = nm,
                           UpSQL = TrimSpace (ReplaceAll (split ! 0) ''-- +up'' []),
                           DownSQL = TrimSpace (split ! 1),
                           Checksum = EncodeToString (Sum256 content) \<rparr>)))"

text \<open>The loop of \<open>loadMigrations\<close>: directories and names without the suffix \<open>.sql\<close>
  are skipped, the first file that does not parse ends the load.\<close>

fun parseEntries :: "filesystem \<Rightarrow> DirEntry list \<Rightarrow> error + Migration list" where
  "parseEntries fs [] = Inr []"
| "parseEntries fs (e # es) =
     (if IsDir e \<or> \<not> HasSuffix (FileName e) ''.sql'' then parseEntries fs es
      else (case parseMigrationFile fs (FileName e) of
              Inl err \<Rightarrow> Inl err
            | Inr m \<Rightarrow> (case parseEntries fs es of
                          Inl err \<Rightarrow> Inl err
                        | Inr ms \<Rightarrow> Inr (m # ms))))"

text \<open>
  \<open>sort.Slice\<close> orders by \<open>Version\<close>. It is modelled by the stable insertion sort
  \<open>sort_key\<close>; the library sorts up to twelve elements by insertion too, and beyond that
  only the relative order of migrations with equal versions can differ.
\<close>

definition loadMigrations :: "filesystem \<Rightarrow> error + Migration list" where
  "loadMigrations fs =
     (case fs of None \<Rightarrow> Inl ReadDirError
      | Some entries \<Rightarrow>
          (case parseEntries fs entries of
             Inl err \<Rightarrow> Inl err
           | Inr migrations \<Rightarrow> Inr (sort_key Version migrations)))"

section \<open>The history store\<close>

text \<open>
  The database is the table \<open>schema_migrations\<close> (its rows in insertion order) and the log
  of the scripts it has executed, which stands for the schema those scripts built. The
  engine decides whether it accepts a statement: \<open>rej db st\<close> says that the database
  rejects \<open>st\<close> in state \<open>db\<close>, and a rejected statement changes nothing. An insert is
  also rejected when the version exists already (the primary key of the table). Queries
  are answered.
\<close>

record HistoryRow =
  version :: int
  name :: string
  checksum :: string
  applied_at :: int

record DB =
  schema_migrations :: "HistoryRow list"
  executed :: "string list"

datatype Stmt = Script string | InsertRow HistoryRow | DeleteVersion int

definition Exec :: "(DB \<Rightarrow> Stmt \<Rightarrow> bool) \<Rightarrow> DB \<Rightarrow> Stmt \<Rightarrow> DB option" where
  "Exec rej db st =
     (if rej db st then None
      else (case st of
              Script s \<Rightarrow> Some (db\<lparr>executed := executed db @ [s]\<rparr>)
            | InsertRow r \<Rightarrow>
                if version r \<in> set (map version (schema_migrations db)) then None
                else Some (db\<lparr>schema_migrations := schema_migrations db @ [r]\<rparr>)
            | DeleteVersion v \<Rightarrow>
                Some (db\<lparr>schema_migrations :=
                           filter (\<lambda>r. version r \<noteq> v) (schema_migrations db)\<rparr>)))"

text \<open>\<open>appliedMigrations\<close>: the map from version to stored checksum, built row by row.\<close>

definition appliedMigrations :: "DB \<Rightarrow> (int \<rightharpoonup> string)" where
  "appliedMigrations db =
     fold (\<lambda>r applied. applied(version r \<mapsto> checksum r)) (schema_migrations db) Map.empty"

section \<open>The reconciliation engine\<close>

datatype outcome =
    MigrationsApplied
  | NoMigrationsToRollback
  | RollbackSuccessful
  | Fatal error

text \<open>The first loop of \<open>applyMigrations\<close>: the first discovered migration whose stored
  checksum differs from the file's ends the run.\<close>

fun validateChecksums :: "(int \<rightharpoonup> string) \<Rightarrow> Migration list \<Rightarrow> error option" where
  "validateChecksums applied [] = None"
| "validateChecksums applied (m # ms) =
     (case applied (Version m) of
        Some oldChecksum \<Rightarrow>
          if oldChecksum \<noteq> Checksum m then Some (ChecksumMismatch (Version m) (Name m))
          else validateChecksums applied ms
      | None \<Rightarrow> validateChecksums applied ms)"

text \<open>
  The second loop. \<open>applied\<close> is the map read before the loop; it is not updated while
  the loop runs. \<open>now db\<close> is the reading of \<open>time.Now()\<close> taken when the row is inserted
  in state \<open>db\<close>. A fatal error ends the process and leaves the database as it is then.
\<close>

fun applyLoop ::
  "(DB \<Rightarrow> Stmt \<Rightarrow> bool) \<Rightarrow> (DB \<Rightarrow> int) \<Rightarrow> (int \<rightharpoonup> string) \<Rightarrow> bool \<Rightarrow> int list \<Rightarrow>
   Migration list \<Rightarrow> DB \<Rightarrow> outcome \<times> DB" where
  "applyLoop rej now applied upTo target [] db = (MigrationsApplied, db)"
| "applyLoop rej now applied upTo target (m # ms) db =
     (case applied (Version m) of
        Some _ \<Rightarrow> applyLoop rej now applied upTo target ms db
      | None \<Rightarrow>
          if upTo \<and> length target > 0 \<and> Version m > hd target then (MigrationsApplied, db)
          else (case Exec rej db (Script (UpSQL m)) of
                  None \<Rightarrow> (Fatal (ApplyFailed (Version m)), db)
                | Some db1 \<Rightarrow>
                    (case Exec rej db1
                            (InsertRow \<lparr> version = Version m, name = Name m,
                                         checksum = Checksum m, applied_at = now db1 \<rparr>) of
                       None \<Rightarrow> (Fatal (RecordFailed (Version m)), db1)
                     | Some db2 \<Rightarrow> applyLoop rej now applied upTo target ms db2)))"

definition applyMigrations ::
  "(DB \<Rightarrow> Stmt \<Rightarrow> bool) \<Rightarrow> (DB \<Rightarrow> int) \<Rightarrow> filesystem \<Rightarrow> DB \<Rightarrow> bool \<Rightarrow> int list \<Rightarrow>
   outcome \<times> DB" where
  "applyMigrations rej now fs db upTo target =
     (case loadMigrations fs of
        Inl err \<Rightarrow> (Fatal err, db)
      | Inr migrations \<Rightarrow>
          (let applied = appliedMigrations db in
           case validateChecksums applied migrations of
             Some err \<Rightarrow> (Fatal err, db)
           | None \<Rightarrow> applyLoop rej now applied upTo target migrations db))"

text \<open>\<^verbatim>\<open>SELECT version, name ... ORDER BY version DESC LIMIT 1\<close>\<close>

fun lastApplied :: "HistoryRow list \<Rightarrow> HistoryRow option" where
  "lastApplied [] = None"
| "lastApplied (r # rs) =
     (case lastApplied rs of
        None \<Rightarrow> Some r
      | Some r' \<Rightarrow> if version r < version r' then Some r' else Some r)"

definition rollbackPath :: "HistoryRow \<Rightarrow> string" where
  "rollbackPath r = itoa (version r) @ ''_'' @ name r @ ''.sql''"

definition rollbackLastMigration ::
  "(DB \<Rightarrow> Stmt \<Rightarrow> bool) \<Rightarrow> filesystem \<Rightarrow> DB \<Rightarrow> outcome \<times> DB" where
  "rollbackLastMigration rej fs db =
     (case lastApplied (schema_migrations db) of
        None \<Rightarrow> (NoMigrationsToRollback, db)
      | Some r \<Rightarrow>
          (case parseMigrationFile fs (rollbackPath r) of
             Inl err \<Rightarrow> (Fatal err, db)
           | Inr m \<Rightarrow>
               (case Exec rej db (Script (DownSQL m)) of
                  None \<Rightarrow> (Fatal (RollbackFailed (Version m)), db)
                | Some db1 \<Rightarrow>
                    (case Exec rej db1 (DeleteVersion (version r)) of
                       None \<Rightarrow> (Fatal (DeleteFailed (version r)), db1)
                     | Some db2 \<Rightarrow> (RollbackSuccessful, db2)))))"

text \<open>
  \<open>showMigrationInfo\<close> prints one line per element of \<open>migrations\<close>. A line is modelled
  by its four columns; the status is the printed word, and the time is \<open>None\<close> where
  the source prints a dash.
\<close>

record InfoLine =
  infoVersion :: int
  infoName :: string
  infoStatus :: string
  infoAppliedAt :: "int option"

definition appliedInfo :: "DB \<Rightarrow> (int \<rightharpoonup> HistoryRow)" where
  "appliedInfo db =
     fold (\<lambda>r applied. applied(version r \<mapsto> r))
       (sort_key version (schema_migrations db)) Map.empty"

definition infoLine :: "(int \<rightharpoonup> HistoryRow) \<Rightarrow> Migration \<Rightarrow> InfoLine" where
  "infoLine applied m =
     (case applied (Version m) of
        None \<Rightarrow> \<lparr> infoVersion = Version m, infoName = Name m, infoStatus = ''NO'',
                   infoAppliedAt = None \<rparr>
      | Some a \<Rightarrow> \<lparr> infoVersion = Version m, infoName = Name m,
                     infoStatus = (if checksum a = Checksum m then ''YES'' else ''CHANGED''),
                     infoAppliedAt = Some (applied_at a) \<rparr>)"

definition showMigrationInfo :: "filesystem \<Rightarrow> DB \<Rightarrow> error + InfoLine list" where
  "showMigrationInfo fs db =
     (case loadMigrations fs of
        Inl err \<Rightarrow> Inl err
      | Inr migrations \<Rightarrow> Inr (map (infoLine (appliedInfo db)) migrations))"

text \<open>The commands, as \<open>main\<close> dispatches them.\<close>

definition up :: "(DB \<Rightarrow> Stmt \<Rightarrow> bool) \<Rightarrow> (DB \<Rightarrow> int) \<Rightarrow> filesystem \<Rightarrow> DB \<Rightarrow> outcome \<times> DB" where
  "up rej now fs db = applyMigrations rej now fs db False []"

definition up_to ::
  "(DB \<Rightarrow> Stmt \<Rightarrow> bool) \<Rightarrow> (DB \<Rightarrow> int) \<Rightarrow> filesystem \<Rightarrow> DB \<Rightarrow> int \<Rightarrow> outcome \<times> DB" where
  "up_to rej now fs db v = applyMigrations rej now fs db True [v]"

definition down :: "(DB \<Rightarrow> Stmt \<Rightarrow> bool) \<Rightarrow> filesystem \<Rightarrow> DB \<Rightarrow> outcome \<times> DB" where
  "down rej fs db = rollbackLastMigration rej fs db"

definition info :: "filesystem \<Rightarrow> DB \<Rightarrow> error + InfoLine list" where
  "info fs db = showMigrationInfo fs db"

section \<open>Notions used in the statements\<close>

text \<open>
  What the history table keeps of a migration (the time of application apart), the same
  three columns of a row, and the migrations the second loop of
  \<open>applyMigrations\<close> reaches: those absent from the map of applied versions, up to the
  first one beyond the target of \<open>up-to\<close>.
\<close>

definition recOf :: "Migration \<Rightarrow> int \<times> string \<times> string" where
  "recOf m = (Version m, Name m, Checksum m)"

definition rowKey :: "HistoryRow \<Rightarrow> int \<times> string \<times> string" where
  "rowKey r = (version r, name r, checksum r)"

definition toApply :: "(int \<rightharpoonup> string) \<Rightarrow> bool \<Rightarrow> int list \<Rightarrow> Migration list \<Rightarrow> Migration list" where
  "toApply applied upTo target ms =
     takeWhile (\<lambda>m. \<not> (upTo \<and> length target > 0 \<and> Version m > hd target))
       (filter (\<lambda>m. applied (Version m) = None) ms)"

section \<open>Example directories and databases\<close>

text \<open>
  A migration file as \<open>create\<close> lays it out, a database that accepts every statement,
  and a clock that counts the scripts executed so far.
\<close>

definition fileContent :: "string \<Rightarrow> string \<Rightarrow> string" where
  "fileContent upsql downsql =
     ''-- +up'' @ [CHR 0x0A] @ upsql @ [CHR 0x0A, CHR 0x0A] @
     ''-- +down'' @ [CHR 0x0A] @ downsql @ [CHR 0x0A]"

definition sqlFile :: "string \<Rightarrow> string \<Rightarrow> string \<Rightarrow> DirEntry" where
  "sqlFile fname upsql downsql =
     \<lparr> FileName = fname, IsDir = False, Content = Some (fileContent upsql downsql) \<rparr>"

definition mig :: "int \<Rightarrow> string \<Rightarrow> string \<Rightarrow> string \<Rightarrow> Migration" where
  "mig v n upsql downsql =
     \<lparr> Version = v, Name = n, UpSQL = upsql, DownSQL = downsql,
       Checksum = EncodeToString (Sum256 (fileContent upsql downsql)) \<rparr>"

definition histRow :: "int \<Rightarrow> string \<Rightarrow> string \<Rightarrow> string \<Rightarrow> int \<Rightarrow> HistoryRow" where
  "histRow v n upsql downsql t =
     \<lparr> version = v, name = n,
       checksum = EncodeToString (Sum256 (fileContent upsql downsql)), applied_at = t \<rparr>"

definition emptyDB :: DB where
  "emptyDB = \<lparr> schema_migrations = [], executed = [] \<rparr>"

definition acceptAll :: "DB \<Rightarrow> Stmt \<Rightarrow> bool" where
  "acceptAll db st = False"

definition clock :: "DB \<Rightarrow> int" where
  "clock db = int (length (executed db))"

definition dir312 :: filesystem where
  "dir312 = Some [sqlFile ''03_c.sql'' ''U3'' ''D3'', sqlFile ''1_a.sql'' ''U1'' ''D1'',
                  sqlFile ''2_b.sql'' ''U2'' ''D2'']"

definition ms123 :: "Migration list" where
  "ms123 = [mig 1 ''a'' ''U1'' ''D1'', mig 2 ''b'' ''U2'' ''D2'', mig 3 ''c'' ''U3'' ''D3'']"

definition db123 :: DB where
  "db123 = \<lparr> schema_migrations = [histRow 1 ''a'' ''U1'' ''D1'' 1, histRow 2 ''b'' ''U2'' ''D2'' 2,
                                   histRow 3 ''c'' ''U3'' ''D3'' 3],
             executed = [''U1'', ''U2'', ''U3''] \<rparr>"

definition dirDup :: filesystem where
  "dirDup = Some [sqlFile ''01_b.sql'' ''UB'' ''DB'', sqlFile ''1_a.sql'' ''UA'' ''DA'']"

definition dbDup :: DB where
  "dbDup = \<lparr> schema_migrations = [histRow 1 ''b'' ''UB'' ''DB'' 1], executed = [''UB'', ''UA''] \<rparr>"

definition dir234 :: filesystem where
  "dir234 = Some [sqlFile ''2_b.sql'' ''U2'' ''D2'', sqlFile ''3_c.sql'' ''U3'' ''D3'',
                  sqlFile ''4_d.sql'' ''U4'' ''D4'']"

definition ms234 :: "Migration list" where
  "ms234 = [mig 2 ''b'' ''U2'' ''D2'', mig 3 ''c'' ''U3'' ''D3'', mig 4 ''d'' ''U4'' ''D4'']"

definition db23 :: DB where
  "db23 = \<lparr> schema_migrations = [histRow 2 ''b'' ''U2'' ''D2'' 1, histRow 3 ''c'' ''U3'' ''D3'' 2],
            executed = [''U2'', ''U3''] \<rparr>"

definition dir123 :: filesystem where
  "dir123 = Some [sqlFile ''1_a.sql'' ''U1'' ''D1'', sqlFile ''2_b.sql'' ''U2'' ''D2'',
                  sqlFile ''3_c.sql'' ''U3'' ''D3'']"

definition dbV12 :: DB where
  "dbV12 = \<lparr> schema_migrations = [histRow 1 ''a'' ''U1'' ''D1'' 1, histRow 2 ''b'' ''U2'' ''D2'' 2],
            executed = [''U1'', ''U2'', ''U3'', ''D3''] \<rparr>"

definition dbV1 :: DB where
  "dbV1 = \<lparr> schema_migrations = [histRow 1 ''a'' ''U1'' ''D1'' 1],
           executed = [''U1'', ''U2'', ''U3'', ''D3'', ''D2''] \<rparr>"



definition dirNo3 :: filesystem where
  "dirNo3 = Some [sqlFile ''1_a.sql'' ''U1'' ''D1'', sqlFile ''2_b.sql'' ''U2'' ''D2'']"

definition dirChanged :: filesystem where
  "dirChanged = Some [sqlFile ''1_a.sql'' ''U1'' ''DX'']"

section \<open>The statement executor and the second loop\<close>

lemma Exec_Script:
  "Exec rej db (Script s) = Some db1 \<Longrightarrow> db1 = db\<lparr>executed := executed db @ [s]\<rparr>"
  by (simp add: Exec_def split: if_splits)

lemma Exec_InsertRow:
  "Exec rej db (InsertRow r) = Some db2 \<Longrightarrow>
     db2 = db\<lparr>schema_migrations := schema_migrations db @ [r]\<rparr> \<and>
     version r \<notin> version ` set (schema_migrations db)"
  by (simp add: Exec_def split: if_splits)

lemma toApply_Nil: "toApply applied upTo target [] = []"
  by (simp add: toApply_def)

lemma applyLoop_trace:
  "applyLoop rej now applied upTo target ms db = (r, db') \<Longrightarrow>
   \<exists>done new. schema_migrations db' = schema_migrations db @ new \<and>
     map rowKey new = map recOf done \<and>
     distinct (map Version done) \<and>
     Version ` set done \<inter> version ` set (schema_migrations db) = {} \<and>
     ((r = MigrationsApplied \<and> done = toApply applied upTo target ms \<and>
        executed db' = executed db @ map UpSQL done) \<or>
      (\<exists>m rest. toApply applied upTo target ms = done @ m # rest \<and>
        r = Fatal (ApplyFailed (Version m)) \<and>
        executed db' = executed db @ map UpSQL done) \<or>
      (\<exists>m rest. toApply applied upTo target ms = done @ m # rest \<and>
        r = Fatal (RecordFailed (Version m)) \<and>
        executed db' = executed db @ map UpSQL (done @ [m])))"
proof (induction ms arbitrary: db)
  case Nil
  then show ?case by (auto simp: toApply_Nil)
next
  case (Cons m ms)
  show ?case
  proof (cases "applied (Version m)")
    case (Some c)
    with Cons.prems have "applyLoop rej now applied upTo target ms db = (r, db')" by simp
    moreover have "toApply applied upTo target (m # ms) = toApply applied upTo target ms"
      using Some by (simp add: toApply_def)
    ultimately show ?thesis using Cons.IH [of db] by simp
  next
    case None
    show ?thesis
    proof (cases "upTo \<and> length target > 0 \<and> Version m > hd target")
      case True
      with None Cons.prems have "r = MigrationsApplied" "db' = db" by auto
      moreover have "toApply applied upTo target (m # ms) = []"
        using None True by (simp add: toApply_def)
      ultimately show ?thesis by auto
    next
      case False
      have ta: "toApply applied upTo target (m # ms) = m # toApply applied upTo target ms"
        using None False by (simp add: toApply_def)
      show ?thesis
      proof (cases "Exec rej db (Script (UpSQL m))")
        case none1: None
        with None False Cons.prems have "r = Fatal (ApplyFailed (Version m))" "db' = db"
          by auto
        then show ?thesis using ta by (intro exI [of _ "[]"]) auto
      next
        case (Some db1)
        note s1 = Exec_Script [OF Some]
        let ?row = "\<lparr> version = Version m, name = Name m, checksum = Checksum m,
                       applied_at = now db1 \<rparr>"
        show ?thesis
        proof (cases "Exec rej db1 (InsertRow ?row)")
          case none2: None
          with None False Some Cons.prems
          have "r = Fatal (RecordFailed (Version m))" "db' = db1" by auto
          then show ?thesis using ta s1 by (intro exI [of _ "[]"]) auto
        next
          case some2: (Some db2)
          from Exec_InsertRow [OF some2] have
            d2: "db2 = db1\<lparr>schema_migrations := schema_migrations db1 @ [?row]\<rparr>"
            and fresh: "Version m \<notin> version ` set (schema_migrations db1)" by auto
          from None False Some some2 Cons.prems
          have "applyLoop rej now applied upTo target ms db2 = (r, db')" by auto
          from Cons.IH [OF this] obtain dn nw where
            r: "schema_migrations db' = schema_migrations db2 @ nw"
            and k: "map rowKey nw = map recOf dn"
            and di: "distinct (map Version dn)"
            and dj: "Version ` set dn \<inter> version ` set (schema_migrations db2) = {}"
            and cases: "(r = MigrationsApplied \<and> dn = toApply applied upTo target ms \<and>
                executed db' = executed db2 @ map UpSQL dn) \<or>
              (\<exists>m' rest. toApply applied upTo target ms = dn @ m' # rest \<and>
                r = Fatal (ApplyFailed (Version m')) \<and>
                executed db' = executed db2 @ map UpSQL dn) \<or>
              (\<exists>m' rest. toApply applied upTo target ms = dn @ m' # rest \<and>
                r = Fatal (RecordFailed (Version m')) \<and>
                executed db' = executed db2 @ map UpSQL (dn @ [m']))" by blast
          have r2: "schema_migrations db2 = schema_migrations db @ [?row]"
            by (simp add: d2 s1)
          have e2: "executed db2 = executed db @ [UpSQL m]" by (simp add: d2 s1)
          have rows2: "version ` set (schema_migrations db2) =
              insert (Version m) (version ` set (schema_migrations db))"
            by (simp add: d2 s1)
          have A: "schema_migrations db' = schema_migrations db @ (?row # nw)"
            using r r2 by simp
          have K: "map rowKey (?row # nw) = map recOf (m # dn)"
            using k by (simp add: rowKey_def recOf_def)
          have B: "distinct (map Version (m # dn))" using di dj rows2 by auto
          have C: "Version ` set (m # dn) \<inter> version ` set (schema_migrations db) = {}"
            using dj rows2 fresh s1 by auto
          from cases show ?thesis
          proof (elim disjE conjE exE)
            assume "r = MigrationsApplied" "dn = toApply applied upTo target ms"
              "executed db' = executed db2 @ map UpSQL dn"
            then show ?thesis using A K B C ta e2
              by (intro exI [of _ "m # dn"] exI [of _ "?row # nw"]) simp
          next
            fix m' rest
            assume "toApply applied upTo target ms = dn @ m' # rest"
              "r = Fatal (ApplyFailed (Version m'))"
              "executed db' = executed db2 @ map UpSQL dn"
            then show ?thesis using A K B C ta e2
              by (intro exI [of _ "m # dn"] exI [of _ "?row # nw"]) simp
          next
            fix m' rest
            assume "toApply applied upTo target ms = dn @ m' # rest"
              "r = Fatal (RecordFailed (Version m'))"
              "executed db' = executed db2 @ map UpSQL (dn @ [m'])"
            then show ?thesis using A K B C ta e2
              by (intro exI [of _ "m # dn"] exI [of _ "?row # nw"]) simp
          qed
        qed
      qed
    qed
  qed
qed

section \<open>Loading, the map of applied versions, validation\<close>

lemma loadMigrations_sorted: "loadMigrations fs = Inr ms \<Longrightarrow> sorted (map Version ms)"
  by (auto simp: loadMigrations_def split: option.splits sum.splits)

lemma fold_update_map_of:
  "fold (\<lambda>r m. m(k r \<mapsto> v r)) rows m0 = m0 ++ map_of (rev (map (\<lambda>r. (k r, v r)) rows))"
  by (induction rows arbitrary: m0) (simp_all add: map_add_upd_left)

lemma appliedMigrations_map_of:
  "appliedMigrations db = map_of (rev (map (\<lambda>r. (version r, checksum r)) (schema_migrations db)))"
  by (simp add: appliedMigrations_def fold_update_map_of)

lemma appliedMigrations_None:
  "appliedMigrations db v = None \<longleftrightarrow> v \<notin> version ` set (schema_migrations db)"
  by (simp add: appliedMigrations_map_of map_of_eq_None_iff image_image)

lemma appliedMigrations_append:
  "schema_migrations db' = schema_migrations db @ new \<Longrightarrow>
   appliedMigrations db' =
     appliedMigrations db ++ map_of (rev (map (\<lambda>r. (version r, checksum r)) new))"
  by (simp add: appliedMigrations_map_of)

lemma validateChecksums_None:
  "validateChecksums applied ms = None \<longleftrightarrow>
     (\<forall>m\<in>set ms. \<forall>c. applied (Version m) = Some c \<longrightarrow> c = Checksum m)"
  by (induction ms) (auto split: option.splits)

lemma validateChecksums_Some:
  "validateChecksums applied ms = Some e \<Longrightarrow>
     \<exists>m\<in>set ms. e = ChecksumMismatch (Version m) (Name m) \<and>
        (\<exists>c. applied (Version m) = Some c \<and> c \<noteq> Checksum m)"
  by (induction ms) (auto split: option.splits if_splits)

lemma takeWhile_le_sorted:
  "sorted (map f xs) \<Longrightarrow> takeWhile (\<lambda>x. f x \<le> (t::int)) xs = filter (\<lambda>x. f x \<le> t) xs"
proof (induction xs)
  case Nil
  then show ?case by simp
next
  case (Cons x xs)
  show ?case
  proof (cases "f x \<le> t")
    case True
    with Cons show ?thesis by simp
  next
    case False
    with Cons.prems have "\<forall>y\<in>set xs. \<not> f y \<le> t" by auto
    then have "filter (\<lambda>x. f x \<le> t) xs = []" by (simp add: filter_empty_conv)
    with False show ?thesis by simp
  qed
qed

lemma toApply_up: "toApply applied False target ms = filter (\<lambda>m. applied (Version m) = None) ms"
  by (simp add: toApply_def)

lemma toApply_up_to:
  assumes "sorted (map Version ms)"
  shows "toApply applied True [t] ms =
     filter (\<lambda>m. applied (Version m) = None \<and> Version m \<le> t) ms"
proof -
  have "sorted (map Version (filter (\<lambda>m. applied (Version m) = None) ms))"
    using assms by (rule sorted_filter)
  from takeWhile_le_sorted [OF this, of t]
  show ?thesis by (simp add: toApply_def not_less conj_commute)
qed

section \<open>Traces of \<open>applyMigrations\<close>\<close>

lemma applyMigrations_cases:
  assumes "loadMigrations fs = Inr ms"
    and "applyMigrations rej now fs db upTo target = (r, db')"
  shows "(\<exists>e. validateChecksums (appliedMigrations db) ms = Some e \<and> r = Fatal e \<and> db' = db) \<or>
    (validateChecksums (appliedMigrations db) ms = None \<and>
     applyLoop rej now (appliedMigrations db) upTo target ms db = (r, db'))"
  using assms by (auto simp: applyMigrations_def Let_def split: option.splits)


lemma applyMigrations_trace:
  assumes load: "loadMigrations fs = Inr ms"
    and run: "applyMigrations rej now fs db upTo target = (r, db')"
  shows "\<exists>done rest new.
     toApply (appliedMigrations db) upTo target ms = done @ rest \<and>
     schema_migrations db' = schema_migrations db @ new \<and>
     map rowKey new = map recOf done \<and>
     distinct (map Version done) \<and>
     Version ` set done \<inter> version ` set (schema_migrations db) = {} \<and>
     ((\<exists>m rest'. rest = m # rest' \<and> r = Fatal (RecordFailed (Version m)) \<and>
          executed db' = executed db @ map UpSQL (done @ [m])) \<or>
      ((\<forall>v. r \<noteq> Fatal (RecordFailed v)) \<and> executed db' = executed db @ map UpSQL done)) \<and>
     (r = MigrationsApplied \<longrightarrow> rest = [] \<and> validateChecksums (appliedMigrations db) ms = None)"
proof -
  let ?ps = "toApply (appliedMigrations db) upTo target ms"
  from applyMigrations_cases [OF load run] show ?thesis
  proof (elim disjE exE conjE)
    fix e
    assume ve: "validateChecksums (appliedMigrations db) ms = Some e"
      and "r = Fatal e" "db' = db"
    moreover from validateChecksums_Some [OF ve]
    obtain m :: Migration where "e = ChecksumMismatch (Version m) (Name m)" by blast
    ultimately show ?thesis
      by (intro exI [of _ "[]"] exI [of _ "?ps"]) simp
  next
    assume v: "validateChecksums (appliedMigrations db) ms = None"
      and "applyLoop rej now (appliedMigrations db) upTo target ms db = (r, db')"
    from applyLoop_trace [OF this(2)] obtain dn nw where
      A: "schema_migrations db' = schema_migrations db @ nw"
      "map rowKey nw = map recOf dn" "distinct (map Version dn)"
      "Version ` set dn \<inter> version ` set (schema_migrations db) = {}"
      and cases: "(r = MigrationsApplied \<and> dn = ?ps \<and>
          executed db' = executed db @ map UpSQL dn) \<or>
        (\<exists>m rest. ?ps = dn @ m # rest \<and> r = Fatal (ApplyFailed (Version m)) \<and>
          executed db' = executed db @ map UpSQL dn) \<or>
        (\<exists>m rest. ?ps = dn @ m # rest \<and> r = Fatal (RecordFailed (Version m)) \<and>
          executed db' = executed db @ map UpSQL (dn @ [m]))" by blast
    from cases show ?thesis
    proof (elim disjE conjE exE)
      assume "r = MigrationsApplied" "dn = ?ps" "executed db' = executed db @ map UpSQL dn"
      then show ?thesis using A v
        by (intro exI [of _ dn] exI [of _ "[]"] exI [of _ nw]) simp
    next
      fix m rest
      assume "?ps = dn @ m # rest" "r = Fatal (ApplyFailed (Version m))"
        "executed db' = executed db @ map UpSQL dn"
      then show ?thesis using A
        by (intro exI [of _ dn] exI [of _ "m # rest"] exI [of _ nw]) simp
    next
      fix m rest
      assume "?ps = dn @ m # rest" "r = Fatal (RecordFailed (Version m))"
        "executed db' = executed db @ map UpSQL (dn @ [m])"
      then show ?thesis using A
        by (intro exI [of _ dn] exI [of _ "m # rest"] exI [of _ nw]) simp
    qed
  qed
qed

section \<open>Errors of the load, and auxiliary facts\<close>

lemma parseMigrationFile_error:
  "parseMigrationFile fs p = Inl e \<Longrightarrow>
     e = ReadFileError p \<or> e = InvalidFilename p \<or> e = MissingDownSection p"
  by (auto simp: parseMigrationFile_def readFile_def Let_def
      split: sum.splits option.splits if_splits)

lemma parseEntries_error:
  "parseEntries fs es = Inl e \<Longrightarrow>
     \<exists>p. e = ReadFileError p \<or> e = InvalidFilename p \<or> e = MissingDownSection p"
  by (induction es) (auto split: if_splits sum.splits dest: parseMigrationFile_error)

lemma loadMigrations_error:
  "loadMigrations fs = Inl e \<Longrightarrow>
     e = ReadDirError \<or> (\<exists>p. e = ReadFileError p \<or> e = InvalidFilename p \<or> e = MissingDownSection p)"
  by (auto simp: loadMigrations_def split: option.splits sum.splits dest: parseEntries_error)

lemma applyMigrations_load_failed:
  "loadMigrations fs = Inl e \<Longrightarrow> applyMigrations rej now fs db upTo target = (Fatal e, db)"
  by (simp add: applyMigrations_def)

lemma map_rowKey_version:
  "map rowKey new = map recOf done \<Longrightarrow> map version new = map Version done"
proof -
  assume "map rowKey new = map recOf done"
  then have "map fst (map rowKey new) = map fst (map recOf done)" by simp
  then show ?thesis by (simp add: rowKey_def recOf_def comp_def)
qed

lemma map_rowKey_checksum:
  "map rowKey new = map recOf done \<Longrightarrow>
   map (\<lambda>r. (version r, checksum r)) new = map (\<lambda>m. (Version m, Checksum m)) done"
proof -
  assume "map rowKey new = map recOf done"
  then have "map (\<lambda>(v, n, c). (v, c)) (map rowKey new) = map (\<lambda>(v, n, c). (v, c)) (map recOf done)"
    by simp
  then show ?thesis by (simp add: rowKey_def recOf_def comp_def)
qed

lemma sorted_strict_prefix:
  assumes "sorted (map Version (done @ rest))" and "distinct (map Version done)"
  shows "sorted_wrt (<) (map Version done)"
proof -
  from assms(1) have "sorted (map Version done)" by (simp add: sorted_append)
  with assms(2) show ?thesis by (simp add: strict_sorted_iff)
qed

lemma applyLoop_all_applied:
  "\<forall>m\<in>set ms. applied (Version m) \<noteq> None \<Longrightarrow>
   applyLoop rej now applied upTo target ms db = (MigrationsApplied, db)"
  by (induction ms) auto

section \<open>Runs that end with success\<close>

lemma applyLoop_succeeds:
  assumes acc: "\<forall>d st. \<not> rej d st"
  shows "distinct (map Version (toApply applied upTo target ms)) \<Longrightarrow>
     Version ` set (toApply applied upTo target ms) \<inter> version ` set (schema_migrations db) = {} \<Longrightarrow>
     fst (applyLoop rej now applied upTo target ms db) = MigrationsApplied"
proof (induction ms arbitrary: db)
  case Nil
  then show ?case by simp
next
  case (Cons m ms)
  show ?case
  proof (cases "applied (Version m)")
    case (Some c)
    then have "toApply applied upTo target (m # ms) = toApply applied upTo target ms"
      by (simp add: toApply_def)
    with Cons Some show ?thesis by simp
  next
    case None
    show ?thesis
    proof (cases "upTo \<and> length target > 0 \<and> Version m > hd target")
      case True
      with None show ?thesis by simp
    next
      case False
      have ta: "toApply applied upTo target (m # ms) = m # toApply applied upTo target ms"
        using None False by (simp add: toApply_def)
      let ?db1 = "db\<lparr>executed := executed db @ [UpSQL m]\<rparr>"
      let ?row = "\<lparr> version = Version m, name = Name m, checksum = Checksum m,
                     applied_at = now ?db1 \<rparr>"
      let ?db2 = "?db1\<lparr>schema_migrations := schema_migrations ?db1 @ [?row]\<rparr>"
      have e1: "Exec rej db (Script (UpSQL m)) = Some ?db1" using acc by (simp add: Exec_def)
      from Cons.prems(2) ta have fresh: "Version m \<notin> version ` set (schema_migrations db)"
        by auto
      then have e2: "Exec rej ?db1 (InsertRow ?row) = Some ?db2"
        using acc by (simp add: Exec_def)
      have d: "distinct (map Version (toApply applied upTo target ms))"
        using Cons.prems(1) ta by simp
      have j: "Version ` set (toApply applied upTo target ms) \<inter>
          version ` set (schema_migrations ?db2) = {}"
        using Cons.prems ta by auto
      from Cons.IH [OF d j] None False e1 e2 show ?thesis by simp
    qed
  qed
qed

lemma toApply_subset:
  "set (toApply applied upTo target ms) \<subseteq> {m \<in> set ms. applied (Version m) = None}"
  by (auto simp: toApply_def dest: set_takeWhileD)

lemma distinct_toApply:
  "distinct (map Version ms) \<Longrightarrow> distinct (map Version (toApply applied upTo target ms))"
proof -
  assume d: "distinct (map Version ms)"
  then have "distinct (map Version (filter (\<lambda>m. applied (Version m) = None) ms))"
    by (rule distinct_map_filter)
  then have "distinct (takeWhile (\<lambda>v. \<not> (upTo \<and> length target > 0 \<and> v > hd target))
      (map Version (filter (\<lambda>m. applied (Version m) = None) ms)))"
    by (rule distinct_takeWhile)
  then show ?thesis by (simp add: toApply_def takeWhile_map comp_def)
qed

lemma applyMigrations_succeeds:
  assumes load: "loadMigrations fs = Inr ms"
    and acc: "\<forall>d st. \<not> rej d st"
    and same: "\<forall>m\<in>set ms. \<forall>c. appliedMigrations db (Version m) = Some c \<longrightarrow> c = Checksum m"
    and dist: "distinct (map Version ms)"
  shows "fst (applyMigrations rej now fs db upTo target) = MigrationsApplied"
proof -
  from same have v: "validateChecksums (appliedMigrations db) ms = None"
    by (simp add: validateChecksums_None)
  have "Version ` set (toApply (appliedMigrations db) upTo target ms) \<inter>
      version ` set (schema_migrations db) = {}"
    using toApply_subset [of "appliedMigrations db" upTo target ms]
    by (auto simp: appliedMigrations_None)
  from applyLoop_succeeds [OF acc distinct_toApply [OF dist] this]
  show ?thesis using load v by (simp add: applyMigrations_def)
qed

lemma rollback_succeeds:
  assumes "lastApplied (schema_migrations db) = Some hi"
    and "parseMigrationFile fs (rollbackPath hi) = Inr m"
    and "\<forall>d st. \<not> rej d st"
  shows "fst (rollbackLastMigration rej fs db) = RollbackSuccessful"
  using assms by (simp add: rollbackLastMigration_def Exec_def)

section \<open>The examples, evaluated\<close>

lemmas string_eval =
  HasPrefix_def HasSuffix_def SplitN2_def TrimSpace_def TrimLeft.simps TrimRight.simps
  leadingSpace_def trailingSpace_def asciiSpace_def spaceRunes_def byte_of_def
  isDigit_def digitVal_def decimalValue_def maxInt64_def parseInt64_def itoa_def
  digitsOf.simps

lemmas reader_eval =
  fileContent_def sqlFile_def mig_def readFile_def matchFilename_def parseMigrationFile_def
  loadMigrations_def Let_def

lemmas engine_eval =
  histRow_def emptyDB_def acceptAll_def clock_def Exec_def appliedMigrations_def
  applyMigrations_def up_def up_to_def

lemma load_dir312: "loadMigrations dir312 = Inr ms123"
  by (simp add: dir312_def ms123_def string_eval reader_eval)

lemma applied_emptyDB: "appliedMigrations emptyDB = Map.empty"
  by (simp add: appliedMigrations_def emptyDB_def)

lemma up_dir312: "up acceptAll clock dir312 emptyDB = (MigrationsApplied, db123)"
  by (simp add: up_def applyMigrations_def load_dir312 applied_emptyDB Let_def)
     (simp add: ms123_def mig_def db123_def engine_eval)

lemma up_dirDup: "up acceptAll clock dirDup emptyDB = (Fatal (RecordFailed 1), dbDup)"
  by (simp add: dirDup_def dbDup_def string_eval reader_eval engine_eval)


lemma load_dir234: "loadMigrations dir234 = Inr ms234"
  by (simp add: dir234_def ms234_def string_eval reader_eval)

lemma up_to_3_dir234: "up_to acceptAll clock dir234 emptyDB 3 = (MigrationsApplied, db23)"
  by (simp add: up_to_def applyMigrations_def load_dir234 applied_emptyDB Let_def)
     (simp add: ms234_def mig_def db23_def engine_eval)

lemma up_to_1_dir234: "up_to acceptAll clock dir234 emptyDB 1 = (MigrationsApplied, emptyDB)"
  by (simp add: up_to_def applyMigrations_def load_dir234 applied_emptyDB Let_def)
     (simp add: ms234_def mig_def)

lemma applied_db123:
  "\<forall>m\<in>set ms123. appliedMigrations db123 (Version m) = Some (Checksum m)"
  by (simp add: ms123_def db123_def mig_def histRow_def appliedMigrations_def)

lemmas down_eval =
  down_def rollbackLastMigration_def rollbackPath_def histRow_def acceptAll_def Exec_def
  char_of_def bit_Suc_0_iff

lemma down_db123: "down acceptAll dir123 db123 = (RollbackSuccessful, dbV12)"
  by (simp add: dir123_def db123_def dbV12_def down_eval string_eval reader_eval)

lemma down_db12: "down acceptAll dir123 dbV12 = (RollbackSuccessful, dbV1)"
  by (simp add: dir123_def dbV1_def dbV12_def down_eval string_eval reader_eval)

lemma lastApplied_db123: "lastApplied (schema_migrations db123) = Some (histRow 3 ''c'' ''U3'' ''D3'' 3)"
  by (simp add: db123_def histRow_def)

lemma rollbackPath_3c: "rollbackPath (histRow 3 ''c'' ''U3'' ''D3'' 3) = ''3_c.sql''"
  by (simp add: rollbackPath_def histRow_def string_eval char_of_def bit_Suc_0_iff)




lemma info_dir234_db123:
  "info dir234 db123 =
     Inr [\<lparr> infoVersion = 2, infoName = ''b'', infoStatus = ''YES'', infoAppliedAt = Some 2 \<rparr>,
          \<lparr> infoVersion = 3, infoName = ''c'', infoStatus = ''YES'', infoAppliedAt = Some 3 \<rparr>,
          \<lparr> infoVersion = 4, infoName = ''d'', infoStatus = ''NO'', infoAppliedAt = None \<rparr>]"
  by (simp add: info_def showMigrationInfo_def load_dir234)
     (simp add: ms234_def mig_def db123_def histRow_def appliedInfo_def infoLine_def)

section \<open>The claims about \<open>up\<close> and \<open>up-to\<close>\<close>

text \<open>
  Claim C3, as amended. The source runs the forward script with one \<open>db.Exec\<close> and
  inserts the history row with a second one; there is no transaction around the two.
  In every run of \<open>up\<close> or \<open>up-to\<close>, whatever its outcome, the rows added to the history
  are those of a list \<open>done\<close> of migrations whose forward scripts were executed, in that
  order, before them; a migration whose forward script was rejected has no row; and when
  the run ends at a rejected insert of the history row, the forward script of exactly
  that one migration stays executed without a row.
\<close>
theorem apply_script_then_row:
  assumes run: "applyMigrations rej now fs db upTo target = (r, db')"
  shows "\<exists>done new.
     schema_migrations db' = schema_migrations db @ new \<and>
     map rowKey new = map recOf done \<and>
     (((\<forall>v. r \<noteq> Fatal (RecordFailed v)) \<and> executed db' = executed db @ map UpSQL done) \<or>
      (\<exists>m :: Migration. r = Fatal (RecordFailed (Version m)) \<and>
           executed db' = executed db @ map UpSQL done @ [UpSQL m]))"
proof (cases "loadMigrations fs")
  case (Inl e)
  from applyMigrations_load_failed [OF Inl] run have "r = Fatal e" "db' = db" by simp_all
  moreover from loadMigrations_error [OF Inl] have "\<forall>v. e \<noteq> RecordFailed v" by auto
  ultimately show ?thesis by (intro exI [of _ "[]"]) simp
next
  case (Inr ms)
  from applyMigrations_trace [OF Inr run] obtain dn rest nw where
    A: "schema_migrations db' = schema_migrations db @ nw" "map rowKey nw = map recOf dn"
    and E: "(\<exists>m rest'. rest = m # rest' \<and> r = Fatal (RecordFailed (Version m)) \<and>
          executed db' = executed db @ map UpSQL (dn @ [m])) \<or>
      ((\<forall>v. r \<noteq> Fatal (RecordFailed v)) \<and> executed db' = executed db @ map UpSQL dn)"
    by blast
  from E A show ?thesis by (intro exI [of _ dn] exI [of _ nw]) auto
qed

theorem apply_script_then_row_witness:
  "applyMigrations acceptAll clock dirDup emptyDB False [] = (Fatal (RecordFailed 1), dbDup) \<and>
   (\<exists>done new.
     schema_migrations dbDup = schema_migrations emptyDB @ new \<and>
     map rowKey new = map recOf done \<and>
     (((\<forall>v. Fatal (RecordFailed 1) \<noteq> Fatal (RecordFailed v)) \<and>
        executed dbDup = executed emptyDB @ map UpSQL done) \<or>
      (\<exists>m :: Migration. Fatal (RecordFailed 1) = Fatal (RecordFailed (Version m)) \<and>
           executed dbDup = executed emptyDB @ map UpSQL done @ [UpSQL m])))"
proof -
  have run: "applyMigrations acceptAll clock dirDup emptyDB False [] = (Fatal (RecordFailed 1), dbDup)"
    using up_dirDup by (simp add: up_def)
  from apply_script_then_row [OF run] run show ?thesis by simp
qed

theorem up_leaves_script_without_row_counterexample:
  "fst (up acceptAll clock dirDup emptyDB) = Fatal (RecordFailed 1) \<and>
   executed (snd (up acceptAll clock dirDup emptyDB)) = [''UB'', ''UA''] \<and>
   map name (schema_migrations (snd (up acceptAll clock dirDup emptyDB))) = [''b'']"
  by (simp add: up_dirDup dbDup_def histRow_def)


lemma DB_eqI:
  "schema_migrations (a::DB) = schema_migrations b \<Longrightarrow> executed a = executed b \<Longrightarrow> a = b"
  by simp

text \<open>
  Claim C4. Whatever the order in which the directory lists its files, \<open>up\<close> goes
  through the pending migrations (those whose version is not in the history) in
  ascending order of version: the rows it adds and the forward scripts it executes are
  those of a prefix \<open>done\<close> of the pending list sorted by version, the versions of the
  rows are strictly ascending, and a run that ends with success has applied the whole
  list. A run that a statement ends early has executed at most the forward script of the
  next pending migration beyond \<open>done\<close>. The run does end with success when the database
  rejects no statement, the versions of the files are distinct and no applied file was
  changed.
\<close>
theorem up_applies_in_ascending_order:
  assumes load: "loadMigrations fs = Inr ms"
    and run: "up rej now fs db = (r, db')"
  shows "\<exists>done rest new.
     filter (\<lambda>m. appliedMigrations db (Version m) = None) ms = done @ rest \<and>
     sorted (map Version (done @ rest)) \<and>
     schema_migrations db' = schema_migrations db @ new \<and>
     map rowKey new = map recOf done \<and>
     sorted_wrt (<) (map Version done) \<and>
     (executed db' = executed db @ map UpSQL done \<or>
      executed db' = executed db @ map UpSQL (done @ take 1 rest)) \<and>
     (r = MigrationsApplied \<longrightarrow> rest = [] \<and> executed db' = executed db @ map UpSQL done) \<and>
     ((\<forall>d st. \<not> rej d st) \<and> distinct (map Version ms) \<and>
      (\<forall>m\<in>set ms. \<forall>c. appliedMigrations db (Version m) = Some c \<longrightarrow> c = Checksum m) \<longrightarrow>
        r = MigrationsApplied)"
proof -
  from run have run': "applyMigrations rej now fs db False [] = (r, db')"
    by (simp add: up_def)
  from applyMigrations_trace [OF load run'] obtain dn rest nw where
    t: "toApply (appliedMigrations db) False [] ms = dn @ rest"
    and A: "schema_migrations db' = schema_migrations db @ nw" "map rowKey nw = map recOf dn"
    and D: "distinct (map Version dn)"
    and E: "(\<exists>m rest'. rest = m # rest' \<and> r = Fatal (RecordFailed (Version m)) \<and>
          executed db' = executed db @ map UpSQL (dn @ [m])) \<or>
      ((\<forall>v. r \<noteq> Fatal (RecordFailed v)) \<and> executed db' = executed db @ map UpSQL dn)"
    and S: "r = MigrationsApplied \<longrightarrow> rest = []"
    by blast
  from t have f: "filter (\<lambda>m. appliedMigrations db (Version m) = None) ms = dn @ rest"
    by (simp add: toApply_up)
  have "sorted (map Version (filter (\<lambda>m. appliedMigrations db (Version m) = None) ms))"
    using loadMigrations_sorted [OF load] by (rule sorted_filter)
  with f have so: "sorted (map Version (dn @ rest))" by simp
  have st: "sorted_wrt (<) (map Version dn)" using so D by (rule sorted_strict_prefix)
  from E have ex: "executed db' = executed db @ map UpSQL dn \<or>
      executed db' = executed db @ map UpSQL (dn @ take 1 rest)" by auto
  from E S have fin: "r = MigrationsApplied \<longrightarrow> rest = [] \<and> executed db' = executed db @ map UpSQL dn"
    by auto
  have ok: "(\<forall>d st. \<not> rej d st) \<and> distinct (map Version ms) \<and>
      (\<forall>m\<in>set ms. \<forall>c. appliedMigrations db (Version m) = Some c \<longrightarrow> c = Checksum m) \<longrightarrow>
        r = MigrationsApplied"
    using applyMigrations_succeeds [OF load, of rej db now False "[]"] run' by auto
  from f so A st ex fin ok show ?thesis by blast
qed

theorem up_applies_in_ascending_order_witness:
  "loadMigrations dir312 = Inr ms123 \<and>
   up acceptAll clock dir312 emptyDB = (MigrationsApplied, db123) \<and>
   map Version ms123 = [1, 2, 3] \<and>
   (\<exists>done rest new.
     filter (\<lambda>m. appliedMigrations emptyDB (Version m) = None) ms123 = done @ rest \<and>
     sorted (map Version (done @ rest)) \<and>
     schema_migrations db123 = schema_migrations emptyDB @ new \<and>
     map rowKey new = map recOf done \<and>
     sorted_wrt (<) (map Version done) \<and>
     (executed db123 = executed emptyDB @ map UpSQL done \<or>
      executed db123 = executed emptyDB @ map UpSQL (done @ take 1 rest)) \<and>
     (MigrationsApplied = MigrationsApplied \<longrightarrow>
        rest = [] \<and> executed db123 = executed emptyDB @ map UpSQL done) \<and>
     ((\<forall>d st. \<not> acceptAll d st) \<and> distinct (map Version ms123) \<and>
      (\<forall>m\<in>set ms123. \<forall>c. appliedMigrations emptyDB (Version m) = Some c \<longrightarrow> c = Checksum m) \<longrightarrow>
        MigrationsApplied = MigrationsApplied))"
proof -
  have v: "map Version ms123 = [1, 2, 3]" by (simp add: ms123_def mig_def)
  from up_applies_in_ascending_order [OF load_dir312 up_dir312] load_dir312 up_dir312 v
  show ?thesis by simp
qed

text \<open>
  Claim C5. \<open>up-to\<close> with target \<open>t\<close> goes through the pending migrations of version at
  most \<open>t\<close>, in ascending order: a run that ends with success has applied exactly those;
  every pending migration of a version above \<open>t\<close> is still absent from the history
  afterwards, whatever the outcome; and when no pending migration has a version at most
  \<open>t\<close>, the database is left as it was. The run does end with success when the database
  rejects no statement, the versions of the files are distinct and no applied file was
  changed.
\<close>
theorem up_to_applies_up_to_target:
  assumes load: "loadMigrations fs = Inr ms"
    and run: "up_to rej now fs db t = (r, db')"
  shows "\<exists>done rest new.
     filter (\<lambda>m. appliedMigrations db (Version m) = None \<and> Version m \<le> t) ms = done @ rest \<and>
     schema_migrations db' = schema_migrations db @ new \<and>
     map rowKey new = map recOf done \<and>
     sorted_wrt (<) (map Version done) \<and>
     (executed db' = executed db @ map UpSQL done \<or>
      executed db' = executed db @ map UpSQL (done @ take 1 rest)) \<and>
     (r = MigrationsApplied \<longrightarrow> rest = [] \<and> executed db' = executed db @ map UpSQL done) \<and>
     (done @ rest = [] \<longrightarrow> db' = db) \<and>
     (\<forall>m\<in>set ms. appliedMigrations db (Version m) = None \<and> t < Version m \<longrightarrow>
        appliedMigrations db' (Version m) = None) \<and>
     ((\<forall>d st. \<not> rej d st) \<and> distinct (map Version ms) \<and>
      (\<forall>m\<in>set ms. \<forall>c. appliedMigrations db (Version m) = Some c \<longrightarrow> c = Checksum m) \<longrightarrow>
        r = MigrationsApplied)"
proof -
  let ?P = "\<lambda>m. appliedMigrations db (Version m) = None \<and> Version m \<le> t"
  from run have run': "applyMigrations rej now fs db True [t] = (r, db')"
    by (simp add: up_to_def)
  note srt = loadMigrations_sorted [OF load]
  from applyMigrations_trace [OF load run'] obtain dn rest nw where
    t: "toApply (appliedMigrations db) True [t] ms = dn @ rest"
    and A: "schema_migrations db' = schema_migrations db @ nw" "map rowKey nw = map recOf dn"
    and D: "distinct (map Version dn)"
    and E: "(\<exists>m rest'. rest = m # rest' \<and> r = Fatal (RecordFailed (Version m)) \<and>
          executed db' = executed db @ map UpSQL (dn @ [m])) \<or>
      ((\<forall>v. r \<noteq> Fatal (RecordFailed v)) \<and> executed db' = executed db @ map UpSQL dn)"
    and S: "r = MigrationsApplied \<longrightarrow> rest = []"
    by blast
  from t have f: "filter ?P ms = dn @ rest"
    by (simp add: toApply_up_to [OF srt])
  have "sorted (map Version (filter ?P ms))" using srt by (rule sorted_filter)
  with f have so: "sorted (map Version (dn @ rest))" by simp
  have st: "sorted_wrt (<) (map Version dn)" using so D by (rule sorted_strict_prefix)
  from E have ex: "executed db' = executed db @ map UpSQL dn \<or>
      executed db' = executed db @ map UpSQL (dn @ take 1 rest)" by auto
  from E S have fin: "r = MigrationsApplied \<longrightarrow> rest = [] \<and> executed db' = executed db @ map UpSQL dn"
    by auto
  have none: "dn @ rest = [] \<longrightarrow> db' = db"
  proof
    assume "dn @ rest = []"
    then have "dn = []" "rest = []" by simp_all
    with A E have "schema_migrations db' = schema_migrations db" "executed db' = executed db"
      by auto
    then show "db' = db" by (rule DB_eqI)
  qed
  have above: "\<forall>m\<in>set ms. appliedMigrations db (Version m) = None \<and> t < Version m \<longrightarrow>
        appliedMigrations db' (Version m) = None"
  proof (intro ballI impI)
    fix m assume "m \<in> set ms" and h: "appliedMigrations db (Version m) = None \<and> t < Version m"
    from h have old: "Version m \<notin> version ` set (schema_migrations db)"
      by (simp add: appliedMigrations_None)
    have "set dn \<subseteq> set (filter ?P ms)" using f by simp
    then have "\<forall>d\<in>set dn. Version d \<le> t" by auto
    with h have "Version m \<notin> Version ` set dn" by auto
    moreover have "version ` set nw = Version ` set dn"
      using map_rowKey_version [OF A(2)] by (metis set_map)
    ultimately have "Version m \<notin> version ` set (schema_migrations db')"
      using old A(1) by auto
    then show "appliedMigrations db' (Version m) = None"
      by (simp add: appliedMigrations_None)
  qed
  have ok: "(\<forall>d st. \<not> rej d st) \<and> distinct (map Version ms) \<and>
      (\<forall>m\<in>set ms. \<forall>c. appliedMigrations db (Version m) = Some c \<longrightarrow> c = Checksum m) \<longrightarrow>
        r = MigrationsApplied"
    using applyMigrations_succeeds [OF load, of rej db now True "[t]"] run' by auto
  from f A st ex fin none above ok show ?thesis by blast
qed

theorem up_to_applies_up_to_target_witness:
  "loadMigrations dir234 = Inr ms234 \<and>
   up_to acceptAll clock dir234 emptyDB 3 = (MigrationsApplied, db23) \<and>
   up_to acceptAll clock dir234 emptyDB 1 = (MigrationsApplied, emptyDB) \<and>
   (\<exists>done rest new.
     filter (\<lambda>m. appliedMigrations emptyDB (Version m) = None \<and> Version m \<le> 3) ms234 = done @ rest \<and>
     schema_migrations db23 = schema_migrations emptyDB @ new \<and>
     map rowKey new = map recOf done \<and>
     sorted_wrt (<) (map Version done) \<and>
     (executed db23 = executed emptyDB @ map UpSQL done \<or>
      executed db23 = executed emptyDB @ map UpSQL (done @ take 1 rest)) \<and>
     (MigrationsApplied = MigrationsApplied \<longrightarrow>
        rest = [] \<and> executed db23 = executed emptyDB @ map UpSQL done) \<and>
     (done @ rest = [] \<longrightarrow> db23 = emptyDB) \<and>
     (\<forall>m\<in>set ms234. appliedMigrations emptyDB (Version m) = None \<and> 3 < Version m \<longrightarrow>
        appliedMigrations db23 (Version m) = None) \<and>
     ((\<forall>d st. \<not> acceptAll d st) \<and> distinct (map Version ms234) \<and>
      (\<forall>m\<in>set ms234. \<forall>c. appliedMigrations emptyDB (Version m) = Some c \<longrightarrow> c = Checksum m) \<longrightarrow>
        MigrationsApplied = MigrationsApplied)) \<and>
   (\<exists>done rest new.
     filter (\<lambda>m. appliedMigrations emptyDB (Version m) = None \<and> Version m \<le> 1) ms234 = done @ rest \<and>
     schema_migrations emptyDB = schema_migrations emptyDB @ new \<and>
     map rowKey new = map recOf done \<and>
     sorted_wrt (<) (map Version done) \<and>
     (executed emptyDB = executed emptyDB @ map UpSQL done \<or>
      executed emptyDB = executed emptyDB @ map UpSQL (done @ take 1 rest)) \<and>
     (MigrationsApplied = MigrationsApplied \<longrightarrow>
        rest = [] \<and> executed emptyDB = executed emptyDB @ map UpSQL done) \<and>
     (done @ rest = [] \<longrightarrow> emptyDB = emptyDB) \<and>
     (\<forall>m\<in>set ms234. appliedMigrations emptyDB (Version m) = None \<and> 1 < Version m \<longrightarrow>
        appliedMigrations emptyDB (Version m) = None) \<and>
     ((\<forall>d st. \<not> acceptAll d st) \<and> distinct (map Version ms234) \<and>
      (\<forall>m\<in>set ms234. \<forall>c. appliedMigrations emptyDB (Version m) = Some c \<longrightarrow> c = Checksum m) \<longrightarrow>
        MigrationsApplied = MigrationsApplied))"
  using up_to_applies_up_to_target [OF load_dir234 up_to_3_dir234]
    up_to_applies_up_to_target [OF load_dir234 up_to_1_dir234]
    load_dir234 up_to_3_dir234 up_to_1_dir234
  by (intro conjI) assumption+


lemma up_nothing_pending:
  assumes load: "loadMigrations fs = Inr ms"
    and all: "\<forall>m\<in>set ms. appliedMigrations db (Version m) = Some (Checksum m)"
  shows "applyMigrations rej now fs db upTo target = (MigrationsApplied, db)"
proof -
  from all have "validateChecksums (appliedMigrations db) ms = None"
    by (simp add: validateChecksums_None)
  moreover from all have "\<forall>m\<in>set ms. appliedMigrations db (Version m) \<noteq> None" by simp
  then have "applyLoop rej now (appliedMigrations db) upTo target ms db = (MigrationsApplied, db)"
    by (rule applyLoop_all_applied)
  ultimately show ?thesis using load by (simp add: applyMigrations_def)
qed

lemma up_success_all_recorded:
  assumes load: "loadMigrations fs = Inr ms"
    and run: "applyMigrations rej now fs db False target = (MigrationsApplied, db1)"
  shows "\<forall>m\<in>set ms. appliedMigrations db1 (Version m) = Some (Checksum m)"
proof
  fix m assume m: "m \<in> set ms"
  let ?new = "filter (\<lambda>m. appliedMigrations db (Version m) = None) ms"
  from applyMigrations_trace [OF load run] obtain dn rest nw where
    t: "toApply (appliedMigrations db) False target ms = dn @ rest"
    and A: "schema_migrations db1 = schema_migrations db @ nw" "map rowKey nw = map recOf dn"
    and D: "distinct (map Version dn)"
    and J: "Version ` set dn \<inter> version ` set (schema_migrations db) = {}"
    and S: "rest = [] \<and> validateChecksums (appliedMigrations db) ms = None"
    by blast
  from t S have dn: "dn = ?new" by (simp add: toApply_up)
  let ?kv = "map (\<lambda>m. (Version m, Checksum m)) dn"
  have ap: "appliedMigrations db1 = appliedMigrations db ++ map_of (rev ?kv)"
    using appliedMigrations_append [OF A(1)] map_rowKey_checksum [OF A(2)] by simp
  have dk: "distinct (map fst (rev ?kv))" using D by (simp add: comp_def rev_map [symmetric])
  show "appliedMigrations db1 (Version m) = Some (Checksum m)"
  proof (cases "appliedMigrations db (Version m)")
    case None
    with m dn have "m \<in> set dn" by simp
    then have "(Version m, Checksum m) \<in> set (rev ?kv)" by auto
    with dk have "map_of (rev ?kv) (Version m) = Some (Checksum m)" by (rule map_of_is_SomeI)
    then show ?thesis by (simp add: ap)
  next
    case (Some c)
    with S m have c: "c = Checksum m" by (simp add: validateChecksums_None)
    from Some have "Version m \<in> version ` set (schema_migrations db)"
      using appliedMigrations_None [of db "Version m"] by simp
    with J have "Version m \<notin> Version ` set dn" by auto
    then have "map_of (rev ?kv) (Version m) = None"
      by (simp add: map_of_eq_None_iff image_image)
    with Some c show ?thesis by (simp add: ap map_add_def)
  qed
qed

text \<open>
  Claim C6. When every discovered migration is in the history with the checksum of its
  file, \<open>up\<close> ends with success and leaves the database (history rows and executed
  scripts) as it was; and after a run of \<open>up\<close> that ended with success, a second run on
  the same directory ends with success and changes nothing.
\<close>
theorem up_idempotent:
  "(loadMigrations fs = Inr ms \<and>
      (\<forall>m\<in>set ms. appliedMigrations db (Version m) = Some (Checksum m)) \<longrightarrow>
      up rej now fs db = (MigrationsApplied, db)) \<and>
   (up rej now fs db = (MigrationsApplied, db1) \<longrightarrow>
      up rej' now' fs db1 = (MigrationsApplied, db1))"
proof (intro conjI impI)
  assume "loadMigrations fs = Inr ms \<and>
      (\<forall>m\<in>set ms. appliedMigrations db (Version m) = Some (Checksum m))"
  then show "up rej now fs db = (MigrationsApplied, db)"
    by (simp add: up_def up_nothing_pending)
next
  assume run: "up rej now fs db = (MigrationsApplied, db1)"
  then have run': "applyMigrations rej now fs db False [] = (MigrationsApplied, db1)"
    by (simp add: up_def)
  obtain ms' where load: "loadMigrations fs = Inr ms'"
  proof (cases "loadMigrations fs")
    case (Inl e)
    from applyMigrations_load_failed [OF Inl] run' show ?thesis by simp
  next
    case (Inr ms')
    then show ?thesis by (rule that)
  qed
  from up_success_all_recorded [OF load run'] up_nothing_pending [OF load]
  show "up rej' now' fs db1 = (MigrationsApplied, db1)" by (simp add: up_def)
qed

theorem up_idempotent_witness:
  "loadMigrations dir312 = Inr ms123 \<and>
   map (\<lambda>m. appliedMigrations db123 (Version m)) ms123 = map (\<lambda>m. Some (Checksum m)) ms123 \<and>
   up acceptAll clock dir312 emptyDB = (MigrationsApplied, db123) \<and>
   up acceptAll clock dir312 db123 = (MigrationsApplied, db123)"
proof -
  from up_idempotent [of dir312 ms123 db123 acceptAll clock db123 acceptAll clock]
    load_dir312 applied_db123
  have first: "up acceptAll clock dir312 db123 = (MigrationsApplied, db123)" by blast
  from up_idempotent [of dir312 ms123 emptyDB acceptAll clock db123 acceptAll clock]
    up_dir312
  have second: "up acceptAll clock dir312 db123 = (MigrationsApplied, db123)" by blast
  from first second load_dir312 applied_db123 up_dir312 show ?thesis by simp
qed

lemma applyMigrations_tamper:
  assumes load: "loadMigrations fs = Inr ms"
    and m: "m \<in> set ms" "appliedMigrations db (Version m) = Some c" "c \<noteq> Checksum m"
  shows "\<exists>v n. applyMigrations rej now fs db upTo target = (Fatal (ChecksumMismatch v n), db)"
proof -
  from m have "validateChecksums (appliedMigrations db) ms \<noteq> None"
    by (auto simp: validateChecksums_None)
  then obtain e where e: "validateChecksums (appliedMigrations db) ms = Some e" by auto
  from validateChecksums_Some [OF e] obtain m' :: Migration where
    "e = ChecksumMismatch (Version m') (Name m')" by blast
  with e load show ?thesis by (simp add: applyMigrations_def)
qed

section \<open>The claims about \<open>down\<close>\<close>

lemma lastApplied_None: "lastApplied rows = None \<longleftrightarrow> rows = []"
  by (cases rows) (auto split: option.splits if_splits)

lemma lastApplied_Some:
  "rows \<noteq> [] \<Longrightarrow> \<exists>hi. lastApplied rows = Some hi"
  using lastApplied_None [of rows] by auto

lemma lastApplied_max:
  "lastApplied rows = Some hi \<Longrightarrow>
     hi \<in> set rows \<and> (\<forall>x\<in>set rows. version x \<le> version hi)"
proof (induction rows arbitrary: hi)
  case Nil
  then show ?case by simp
next
  case (Cons r rs)
  show ?case
  proof (cases "lastApplied rs")
    case None
    then have "rs = []" by (simp add: lastApplied_None)
    with Cons.prems show ?thesis by simp
  next
    case (Some r')
    from Cons.IH [OF Some] have IH: "r' \<in> set rs" "\<forall>x\<in>set rs. version x \<le> version r'"
      by simp_all
    show ?thesis
    proof (cases "version r < version r'")
      case True
      with Some Cons.prems have "hi = r'" by simp
      with IH True show ?thesis by auto
    next
      case False
      with Some Cons.prems have "hi = r" by simp
      with IH False show ?thesis by fastforce
    qed
  qed
qed

lemma Exec_DeleteVersion:
  "Exec rej db (DeleteVersion v) = Some db2 \<Longrightarrow>
     db2 = db\<lparr>schema_migrations := filter (\<lambda>r. version r \<noteq> v) (schema_migrations db)\<rparr>"
  by (simp add: Exec_def split: if_splits)

lemma rollback_cases:
  assumes hi: "lastApplied (schema_migrations db) = Some hi"
    and run: "rollbackLastMigration rej fs db = (r, db')"
  shows "(\<exists>e. parseMigrationFile fs (rollbackPath hi) = Inl e \<and> r = Fatal e \<and> db' = db) \<or>
    (\<exists>m. parseMigrationFile fs (rollbackPath hi) = Inr m \<and>
       ((r = Fatal (RollbackFailed (Version m)) \<and> db' = db) \<or>
        (r = Fatal (DeleteFailed (version hi)) \<and>
           db' = db\<lparr>executed := executed db @ [DownSQL m]\<rparr>) \<or>
        (r = RollbackSuccessful \<and>
           db' = db\<lparr>executed := executed db @ [DownSQL m],
                     schema_migrations :=
                       filter (\<lambda>x. version x \<noteq> version hi) (schema_migrations db)\<rparr>)))"
proof (cases "parseMigrationFile fs (rollbackPath hi)")
  case (Inl e)
  with hi run show ?thesis by (simp add: rollbackLastMigration_def)
next
  case (Inr m)
  show ?thesis
  proof (cases "Exec rej db (Script (DownSQL m))")
    case None
    with hi run Inr show ?thesis by (simp add: rollbackLastMigration_def)
  next
    case (Some db1)
    note s1 = Exec_Script [OF Some]
    show ?thesis
    proof (cases "Exec rej db1 (DeleteVersion (version hi))")
      case None
      with hi run Inr Some s1 show ?thesis by (simp add: rollbackLastMigration_def)
    next
      case some2: (Some db2)
      from Exec_DeleteVersion [OF some2] s1 hi run Inr Some some2 show ?thesis
        by (simp add: rollbackLastMigration_def)
    qed
  qed
qed

text \<open>
  Claim C7. On a history that is not empty, \<open>down\<close> concerns the row \<open>hi\<close> of the highest
  version only. Whatever the outcome, the rows of every other version are left as they
  were and at most one script is executed, the reverse script of the file that
  \<open>rollbackPath hi\<close> names. A run that ends with success has executed that script and
  deleted the rows of that version, and nothing else; a run that fails leaves the history
  table as it was. The run does end with success when that file parses and the database
  rejects no statement.
\<close>
theorem down_rolls_back_highest_only:
  assumes nonempty: "schema_migrations db \<noteq> []"
    and run: "down rej fs db = (r, db')"
  shows "\<exists>hi. hi \<in> set (schema_migrations db) \<and>
     (\<forall>x\<in>set (schema_migrations db). version x \<le> version hi) \<and>
     filter (\<lambda>x. version x \<noteq> version hi) (schema_migrations db') =
       filter (\<lambda>x. version x \<noteq> version hi) (schema_migrations db) \<and>
     (executed db' = executed db \<or>
      (\<exists>m. parseMigrationFile fs (rollbackPath hi) = Inr m \<and>
           executed db' = executed db @ [DownSQL m])) \<and>
     (r = RollbackSuccessful \<longrightarrow>
        (\<exists>m. parseMigrationFile fs (rollbackPath hi) = Inr m \<and>
             executed db' = executed db @ [DownSQL m]) \<and>
        schema_migrations db' =
          filter (\<lambda>x. version x \<noteq> version hi) (schema_migrations db)) \<and>
     (r \<noteq> RollbackSuccessful \<longrightarrow> schema_migrations db' = schema_migrations db) \<and>
     ((\<exists>m. parseMigrationFile fs (rollbackPath hi) = Inr m) \<and> (\<forall>d st. \<not> rej d st) \<longrightarrow>
        r = RollbackSuccessful)"
proof -
  from lastApplied_Some [OF nonempty] obtain hi where
    hi: "lastApplied (schema_migrations db) = Some hi" by blast
  note mx = lastApplied_max [OF hi]
  from run have run': "rollbackLastMigration rej fs db = (r, db')" by (simp add: down_def)
  have ok: "(\<exists>m. parseMigrationFile fs (rollbackPath hi) = Inr m) \<and> (\<forall>d st. \<not> rej d st) \<longrightarrow>
        r = RollbackSuccessful"
    using rollback_succeeds [OF hi, of fs _ rej] run' by auto
  from rollback_cases [OF hi run'] show ?thesis
  proof (elim disjE exE conjE)
    fix e assume "r = Fatal e" "db' = db"
    with mx ok show ?thesis by (intro exI [of _ hi]) simp
  next
    fix m :: Migration assume "r = Fatal (RollbackFailed (Version m))" "db' = db"
    with mx ok show ?thesis by (intro exI [of _ hi]) simp
  next
    fix m assume "parseMigrationFile fs (rollbackPath hi) = Inr m"
      "r = Fatal (DeleteFailed (version hi))"
      "db' = db\<lparr>executed := executed db @ [DownSQL m]\<rparr>"
    with mx ok show ?thesis by (intro exI [of _ hi]) simp
  next
    fix m assume "parseMigrationFile fs (rollbackPath hi) = Inr m"
      "r = RollbackSuccessful"
      "db' = db\<lparr>executed := executed db @ [DownSQL m],
                 schema_migrations :=
                   filter (\<lambda>x. version x \<noteq> version hi) (schema_migrations db)\<rparr>"
    with mx ok show ?thesis by (intro exI [of _ hi]) simp
  qed
qed

theorem down_rolls_back_highest_only_witness:
  "schema_migrations db123 \<noteq> [] \<and>
   down acceptAll dir123 db123 = (RollbackSuccessful, dbV12) \<and>
   down acceptAll dir123 dbV12 = (RollbackSuccessful, dbV1) \<and>
   map version (schema_migrations db123) = [1, 2, 3] \<and>
   map version (schema_migrations dbV12) = [1, 2] \<and>
   map version (schema_migrations dbV1) = [1] \<and>
   (\<exists>hi. hi \<in> set (schema_migrations db123) \<and>
     (\<forall>x\<in>set (schema_migrations db123). version x \<le> version hi) \<and>
     filter (\<lambda>x. version x \<noteq> version hi) (schema_migrations dbV12) =
       filter (\<lambda>x. version x \<noteq> version hi) (schema_migrations db123) \<and>
     (executed dbV12 = executed db123 \<or>
      (\<exists>m. parseMigrationFile dir123 (rollbackPath hi) = Inr m \<and>
           executed dbV12 = executed db123 @ [DownSQL m])) \<and>
     (RollbackSuccessful = RollbackSuccessful \<longrightarrow>
        (\<exists>m. parseMigrationFile dir123 (rollbackPath hi) = Inr m \<and>
             executed dbV12 = executed db123 @ [DownSQL m]) \<and>
        schema_migrations dbV12 =
          filter (\<lambda>x. version x \<noteq> version hi) (schema_migrations db123)) \<and>
     (RollbackSuccessful \<noteq> RollbackSuccessful \<longrightarrow>
        schema_migrations dbV12 = schema_migrations db123) \<and>
     ((\<exists>m. parseMigrationFile dir123 (rollbackPath hi) = Inr m) \<and>
      (\<forall>d st. \<not> acceptAll d st) \<longrightarrow> RollbackSuccessful = RollbackSuccessful))"
proof -
  have ne: "schema_migrations db123 \<noteq> []" by (simp add: db123_def)
  have v: "map version (schema_migrations db123) = [1, 2, 3]"
    "map version (schema_migrations dbV12) = [1, 2]"
    "map version (schema_migrations dbV1) = [1]"
    by (simp_all add: db123_def dbV12_def dbV1_def histRow_def)
  from down_rolls_back_highest_only [OF ne down_db123] ne down_db123 down_db12 v
  show ?thesis by simp
qed

lemma readFile_missing:
  "path \<notin> FileName ` set es \<Longrightarrow> readFile (Some es) path = Inl (ReadFileError path)"
proof -
  assume "path \<notin> FileName ` set es"
  then have "find (\<lambda>e. FileName e = path) es = None" by (auto simp: find_None_iff)
  then show ?thesis by (simp add: readFile_def)
qed

lemma parse_unreadable:
  "readFile fs path = Inl e \<Longrightarrow> parseMigrationFile fs path = Inl e"
  by (simp add: parseMigrationFile_def)

text \<open>
  Claim C8. On an empty history \<open>down\<close> ends with the outcome "no migrations to
  rollback" and changes nothing. When the file of the highest applied version cannot be
  read (it is absent from the directory, for one), \<open>down\<close> ends with the fatal error of
  the read and leaves the database, history table and executed scripts, as it was.
\<close>
theorem down_nothing_to_do_or_cannot_proceed:
  "(schema_migrations db = [] \<longrightarrow> down rej fs db = (NoMigrationsToRollback, db)) \<and>
   (lastApplied (schema_migrations db) = Some hi \<and> readFile fs (rollbackPath hi) = Inl e \<longrightarrow>
      down rej fs db = (Fatal e, db)) \<and>
   (lastApplied (schema_migrations db) = Some hi \<and> fs = Some es \<and>
    rollbackPath hi \<notin> FileName ` set es \<longrightarrow>
      down rej fs db = (Fatal (ReadFileError (rollbackPath hi)), db))"
proof (intro conjI impI)
  assume "schema_migrations db = []"
  then show "down rej fs db = (NoMigrationsToRollback, db)"
    by (simp add: down_def rollbackLastMigration_def)
next
  assume "lastApplied (schema_migrations db) = Some hi \<and> readFile fs (rollbackPath hi) = Inl e"
  then show "down rej fs db = (Fatal e, db)"
    by (simp add: down_def rollbackLastMigration_def parse_unreadable)
next
  assume "lastApplied (schema_migrations db) = Some hi \<and> fs = Some es \<and>
    rollbackPath hi \<notin> FileName ` set es"
  then show "down rej fs db = (Fatal (ReadFileError (rollbackPath hi)), db)"
    by (simp add: down_def rollbackLastMigration_def parse_unreadable readFile_missing)
qed

theorem down_nothing_to_do_or_cannot_proceed_witness:
  "schema_migrations emptyDB = [] \<and>
   down acceptAll dir123 emptyDB = (NoMigrationsToRollback, emptyDB) \<and>
   lastApplied (schema_migrations db123) = Some (histRow 3 ''c'' ''U3'' ''D3'' 3) \<and>
   readFile dirNo3 (rollbackPath (histRow 3 ''c'' ''U3'' ''D3'' 3)) = Inl (ReadFileError ''3_c.sql'') \<and>
   dirNo3 = Some [sqlFile ''1_a.sql'' ''U1'' ''D1'', sqlFile ''2_b.sql'' ''U2'' ''D2''] \<and>
   rollbackPath (histRow 3 ''c'' ''U3'' ''D3'' 3) \<notin>
     FileName ` set [sqlFile ''1_a.sql'' ''U1'' ''D1'', sqlFile ''2_b.sql'' ''U2'' ''D2''] \<and>
   down acceptAll dirNo3 db123 = (Fatal (ReadFileError ''3_c.sql''), db123) \<and>
   down acceptAll dirNo3 db123 =
     (Fatal (ReadFileError (rollbackPath (histRow 3 ''c'' ''U3'' ''D3'' 3))), db123)"
proof -
  let ?hi = "histRow 3 ''c'' ''U3'' ''D3'' 3"
  let ?es = "[sqlFile ''1_a.sql'' ''U1'' ''D1'', sqlFile ''2_b.sql'' ''U2'' ''D2'']"
  have e: "schema_migrations emptyDB = []" by (simp add: emptyDB_def)
  have rd: "readFile dirNo3 (rollbackPath ?hi) = Inl (ReadFileError ''3_c.sql'')"
    by (simp add: rollbackPath_3c dirNo3_def readFile_def sqlFile_def)
  have d: "dirNo3 = Some ?es" by (simp add: dirNo3_def)
  have nf: "rollbackPath ?hi \<notin> FileName ` set ?es"
    by (simp add: rollbackPath_3c sqlFile_def)
  from down_nothing_to_do_or_cannot_proceed [of emptyDB acceptAll dir123] e
  have a: "down acceptAll dir123 emptyDB = (NoMigrationsToRollback, emptyDB)" by blast
  from down_nothing_to_do_or_cannot_proceed
    [of db123 acceptAll dirNo3 ?hi "ReadFileError ''3_c.sql''" ?es] lastApplied_db123 rd d nf
  have b: "down acceptAll dirNo3 db123 = (Fatal (ReadFileError ''3_c.sql''), db123)"
    and c: "down acceptAll dirNo3 db123 = (Fatal (ReadFileError (rollbackPath ?hi)), db123)"
    by blast+
  from e a lastApplied_db123 rd d nf b c show ?thesis by blast
qed

text \<open>
  Claim C1. A file that was changed after it was applied stops \<open>up\<close> and \<open>up-to\<close> (lemma
  \<open>applyMigrations_tamper\<close>: the first loop ends the run with a checksum mismatch, and
  the database is as it was). \<open>down\<close> makes no such comparison: its query reads the
  version and the name only. With the file \<open>1_a.sql\<close> in the directory and version 1 in
  the history, \<open>down\<close> executes the reverse script the file holds now and deletes the row,
  whatever the stored checksum \<open>F\<close> is.
\<close>

theorem down_runs_file_changed_after_apply:
  "down acceptAll dirChanged
     \<lparr> schema_migrations = [\<lparr> version = 1, name = ''a'', checksum = F, applied_at = t \<rparr>],
       executed = [''U1''] \<rparr> =
   (RollbackSuccessful, \<lparr> schema_migrations = [], executed = [''U1'', ''DX''] \<rparr>)"
  by (simp add: dirChanged_def down_eval string_eval reader_eval)

section \<open>The checksum\<close>
















section \<open>The file name that \<open>down\<close> rebuilds\<close>










section \<open>The claim about \<open>info\<close>\<close>

lemma appliedInfo_None:
  "appliedInfo db v = None \<longleftrightarrow> v \<notin> version ` set (schema_migrations db)"
  by (simp add: appliedInfo_def fold_update_map_of map_of_eq_None_iff image_image)

lemma infoLine_version: "infoVersion (infoLine applied m) = Version m"
  by (simp add: infoLine_def split: option.splits)

lemma infoLine_status:
  "infoStatus (infoLine applied m) = ''NO'' \<longleftrightarrow> applied (Version m) = None"
  by (simp add: infoLine_def split: option.splits)

text \<open>
  Claim C2, as amended. \<open>info\<close> reports one line per discovered migration file, in
  ascending order of version, and nothing else: a version that is in the history table
  but has no file in the directory gets no line. The status of a line is \<open>NO\<close> exactly
  when the version of its file is not in the history table.
\<close>
theorem info_reports_discovered_files_only:
  assumes load: "loadMigrations fs = Inr ms"
  shows "\<exists>ls. info fs db = Inr ls \<and>
     map infoVersion ls = map Version ms \<and>
     sorted (map infoVersion ls) \<and>
     (\<forall>v. v \<notin> Version ` set ms \<longrightarrow> v \<notin> infoVersion ` set ls) \<and>
     (\<forall>l\<in>set ls. (infoStatus l = ''NO'') =
        (infoVersion l \<notin> version ` set (schema_migrations db)))"
proof -
  let ?ls = "map (infoLine (appliedInfo db)) ms"
  have r: "info fs db = Inr ?ls" using load by (simp add: info_def showMigrationInfo_def)
  have v: "map infoVersion ?ls = map Version ms" by (simp add: infoLine_version comp_def)
  have s: "sorted (map infoVersion ?ls)"
    unfolding v by (rule loadMigrations_sorted [OF load])
  have g: "\<forall>v. v \<notin> Version ` set ms \<longrightarrow> v \<notin> infoVersion ` set ?ls"
    by (auto simp: infoLine_version)
  have n: "\<forall>l\<in>set ?ls. (infoStatus l = ''NO'') =
        (infoVersion l \<notin> version ` set (schema_migrations db))"
    by (auto simp: infoLine_version infoLine_status appliedInfo_None)
  from r v s g n show ?thesis by blast
qed

theorem info_reports_discovered_files_only_witness:
  "loadMigrations dir234 = Inr ms234 \<and>
   (\<exists>ls. info dir234 db123 = Inr ls \<and>
     map infoVersion ls = map Version ms234 \<and>
     sorted (map infoVersion ls) \<and>
     (\<forall>v. v \<notin> Version ` set ms234 \<longrightarrow> v \<notin> infoVersion ` set ls) \<and>
     (\<forall>l\<in>set ls. (infoStatus l = ''NO'') =
        (infoVersion l \<notin> version ` set (schema_migrations db123))))"
  using info_reports_discovered_files_only [OF load_dir234, of db123] load_dir234
  by (intro conjI) assumption+

theorem info_omits_deleted_file_counterexample:
  "map version (schema_migrations db123) = [1, 2, 3] \<and>
   map Version ms234 = [2, 3, 4] \<and>
   loadMigrations dir234 = Inr ms234 \<and>
   info dir234 db123 =
     Inr [\<lparr> infoVersion = 2, infoName = ''b'', infoStatus = ''YES'', infoAppliedAt = Some 2 \<rparr>,
          \<lparr> infoVersion = 3, infoName = ''c'', infoStatus = ''YES'', infoAppliedAt = Some 3 \<rparr>,
          \<lparr> infoVersion = 4, infoName = ''d'', infoStatus = ''NO'', infoAppliedAt = None \<rparr>]"
  by (simp add: info_dir234_db123 load_dir234) (simp add: db123_def histRow_def ms234_def mig_def)

end
